theory Spec2Isabelle
  imports Complex_Main "HOL-Library.Sublist" "HOL-Library.Multiset"
begin

section \<open>The aesthetic scorer \<^verbatim>\<open>ae-score.py\<close>\<close>

text \<open>
  A shallow embedding of \<^verbatim>\<open>src/ae-score.py\<close>. Conventions:
  \<^item> Python strings are \<^typ>\<open>string\<close>; only ASCII case folding is modelled, which is all
    the suffix tests of the script can observe.
  \<^item> tensors of scores and embedding components are \<^typ>\<open>real\<close> numbers: rounding, NaN and
    infinities of the floating-point formats are outside the model.
  \<^item> the third-party collaborators (the HTTP client, the checkpoint loader, the image decoder,
    the CLIP encoder, the predictor network, \<^verbatim>\<open>pathlib\<close>'s path normalisation) are
    parameters of the functions that call them.
  \<^item> an exception is a value of type \<open>error\<close>; a function that can raise returns a sum
    with \<open>Inl\<close> for the exception.
  \<^item> the file system, the network log and the standard output form the record \<open>world\<close>,
    passed through the functions that touch them.
\<close>

subsection \<open>Strings and paths\<close>

definition lower_char :: "char \<Rightarrow> char" where
  "lower_char c =
     (let n = (of_char c :: nat) in if 65 \<le> n \<and> n \<le> 90 then char_of (n + 32) else c)"

text \<open>\<^verbatim>\<open>str.lower()\<close>, on ASCII.\<close>

definition str_lower :: "string \<Rightarrow> string" where
  "str_lower s = map lower_char s"

text \<open>\<^verbatim>\<open>s.endswith(tuple)\<close>: some member of the tuple is a suffix of \<open>s\<close>.\<close>

definition endswith :: "string \<Rightarrow> string list \<Rightarrow> bool" where
  "endswith s sufs = list_ex (\<lambda>x. suffix x s) sufs"

text \<open>\<^verbatim>\<open>sep.join(xs)\<close>.\<close>

fun str_join :: "string \<Rightarrow> string list \<Rightarrow> string" where
  "str_join sep [] = []"
| "str_join sep [x] = x"
| "str_join sep (x # y # ys) = x @ sep @ str_join sep (y # ys)"

text \<open>\<^verbatim>\<open>os.path.join(a, b)\<close> of \<^verbatim>\<open>posixpath\<close>, for two arguments.\<close>

definition os_path_join :: "string \<Rightarrow> string \<Rightarrow> string" where
  "os_path_join a b =
     (if prefix ''/'' b then b
      else if a = [] \<or> suffix ''/'' a then a @ b
      else a @ ''/'' @ b)"


subsection \<open>Exceptions, output and the world\<close>

datatype error =
    ValueError string
  | RuntimeError string
  | ZeroDivisionError
  | UnboundLocalError string
  | RequestException string
  | IsADirectoryError string
  | UnpicklingError
  | ImageError string

text \<open>What \<^verbatim>\<open>print\<close> wrote: a line of text, a file with its score, or the average.\<close>

datatype printed =
    Print string
  | PrintScore string real
  | PrintAverage real

datatype cell = Str string | Num real

text \<open>
  A file holds bytes or, for the file written through \<^verbatim>\<open>csv.DictWriter\<close>, its rows in
  the order written (each row is the list of its fields).
\<close>

datatype content = Bytes string | CsvRows "cell list list"

record world =
  dirs :: "string set"
  files :: "string \<rightharpoonup> content"
  requests :: "string list"
  stdout :: "printed list"

text \<open>\<^verbatim>\<open>Path(p).exists()\<close>.\<close>

definition path_exists :: "world \<Rightarrow> string \<Rightarrow> bool" where
  "path_exists w p = (p \<in> dirs w \<or> files w p \<noteq> None)"

definition print_line :: "string \<Rightarrow> world \<Rightarrow> world" where
  "print_line s w = w\<lparr>stdout := stdout w @ [Print s]\<rparr>"

subsection \<open>Model acquisition\<close>

definition model_to_host :: "(string \<times> string) list" where
  "model_to_host =
     [(''chadscorer'', ''https://github.com/grexzen/SD-Chad/raw/main/chadscorer.pth''),
      (''sac+logos+ava1-l14-linearMSE'',
       ''https://github.com/christophschuhmann/improved-aesthetic-predictor/blob/main/sac+logos+ava1-l14-linearMSE.pth?raw=true'')]"

definition invalid_model_message :: "string \<Rightarrow> string" where
  "invalid_model_message model =
     ''invalid model: '' @ model @ ''. try one of these: ''
       @ str_join '', '' (map fst model_to_host)"

text \<open>
  \<^verbatim>\<open>ensure_model\<close> (lines 62-87). \<open>cache_dir\<close> is what \<^verbatim>\<open>user_cache_dir\<close> returned;
  \<open>http_get url\<close> is the body \<^verbatim>\<open>requests.get(url)\<close> answers with, \<open>None\<close> when the request
  raises. \<^verbatim>\<open>mkdir(parents=True, exist_ok=True)\<close> records the cache directory in \<open>dirs\<close>.
  The result pairs the outcome with the world as the call left it.
\<close>

definition ensure_model ::
  "string \<Rightarrow> (string \<Rightarrow> string option) \<Rightarrow> string \<Rightarrow> world \<Rightarrow> (error + unit) \<times> world" where
  "ensure_model cache_dir http_get model w =
     (let w1 = w\<lparr>dirs := insert cache_dir (dirs w)\<rparr>;
          file = model @ ''.pth'';
          full_file = os_path_join cache_dir file
      in if \<not> path_exists w1 full_file then
           (case map_of model_to_host model of
              None \<Rightarrow> (Inl (ValueError (invalid_model_message model)), w1)
            | Some url \<Rightarrow>
                (let w2 = print_line (''downloading '' @ url) w1;
                     w3 = w2\<lparr>requests := requests w2 @ [url]\<rparr>
                 in case http_get url of
                      None \<Rightarrow> (Inl (RequestException url), w3)
                    | Some body \<Rightarrow>
                        (Inr (),
                         print_line (''saved to '' @ full_file)
                           (w3\<lparr>files := (files w3)(full_file \<mapsto> Bytes body)\<rparr>))))
         else (Inr (), w1))"

subsection \<open>Predictor loader\<close>

text \<open>The predictor: its input size and the parameters loaded into it.\<close>

record 'sd predictor =
  input_size :: nat
  state_dict :: 'sd

text \<open>Lines 116-122 of \<^verbatim>\<open>load_model\<close>: the input size chosen from the CLIP model's name.\<close>

definition predictor_input_size :: "string \<Rightarrow> nat" where
  "predictor_input_size clip_model =
     (if sublist ''ViT-L'' clip_model then 768
      else if sublist ''ViT-B'' clip_model then 512
      else 768)"

text \<open>
  \<^verbatim>\<open>load_model\<close> (lines 103-130). \<open>torch_load\<close> reads a state dictionary from the bytes of
  the checkpoint (\<open>None\<close> when it cannot); \<open>fits n sd\<close> says that \<^verbatim>\<open>load_state_dict\<close>
  accepts \<open>sd\<close> for the network with \<open>n\<close> inputs.
\<close>

definition load_model ::
  "string \<Rightarrow> (string \<Rightarrow> string option) \<Rightarrow> (string \<Rightarrow> 'sd option) \<Rightarrow> (nat \<Rightarrow> 'sd \<Rightarrow> bool)
     \<Rightarrow> string \<Rightarrow> string \<Rightarrow> world \<Rightarrow> (error + 'sd predictor) \<times> world" where
  "load_model cache_dir http_get torch_load fits model clip_model w =
     (case ensure_model cache_dir http_get model w of
        (Inl e, w1) \<Rightarrow> (Inl e, w1)
      | (Inr _, w1) \<Rightarrow>
          (let path = os_path_join cache_dir (model @ ''.pth'') in
           case files w1 path of
             None \<Rightarrow> (Inl (IsADirectoryError path), w1)
           | Some (CsvRows _) \<Rightarrow> (Inl UnpicklingError, w1)
           | Some (Bytes b) \<Rightarrow>
               (case torch_load b of
                  None \<Rightarrow> (Inl UnpicklingError, w1)
                | Some pt_state \<Rightarrow>
                    (let n = predictor_input_size clip_model in
                     if fits n pt_state
                     then (Inr \<lparr>input_size = n, state_dict = pt_state\<rparr>, w1)
                     else (Inl (RuntimeError ''Error(s) in loading state_dict''), w1)))))"

subsection \<open>Normalisation and scoring\<close>

text \<open>\<^verbatim>\<open>np.linalg.norm(a, 2, -1)\<close> for one row of the batch.\<close>

definition l2_norm :: "real list \<Rightarrow> real" where
  "l2_norm v = sqrt (sum_list (map (\<lambda>x. x * x) v))"

text \<open>Line 138, \<^verbatim>\<open>l2[l2 == 0] = 1\<close>: the divisors, one for each row.\<close>

definition divisors :: "real list list \<Rightarrow> real list" where
  "divisors a = map (\<lambda>n. if n = 0 then 1 else n) (map l2_norm a)"

text \<open>
  \<^verbatim>\<open>normalized\<close> (lines 134-139) on a batch: a list of rows, each divided by its divisor.
\<close>

definition normalized :: "real list list \<Rightarrow> real list list" where
  "normalized a = map2 (\<lambda>row d. map (\<lambda>x. x / d) row) a (divisors a)"

datatype dtype = Float32 | Float16 | BFloat16

text \<open>\<^verbatim>\<open>prepare_dtype\<close> (lines 151-160), its first component.\<close>

definition prepare_dtype :: "string \<Rightarrow> dtype" where
  "prepare_dtype precision =
     (if precision = ''fp16'' then Float16
      else if precision = ''bf16'' then BFloat16
      else Float32)"

text \<open>
  \<^verbatim>\<open>get_aesthetic_predictor_scores\<close> (lines 163-184): \<open>encode\<close> is the CLIP image encoder on
  the batch, \<open>predict\<close> the predictor network, giving one score for each row.
\<close>

definition get_aesthetic_predictor_scores ::
  "('img list \<Rightarrow> real list list) \<Rightarrow> (dtype \<Rightarrow> real list list \<Rightarrow> real list) \<Rightarrow> dtype
     \<Rightarrow> 'img list \<Rightarrow> real list" where
  "get_aesthetic_predictor_scores encode predict dt images =
     predict dt (normalized (encode images))"

subsection \<open>Run configuration and device\<close>

text \<open>
  The namespace that \<^verbatim>\<open>argparse\<close> builds (lines 335-403) and \<^verbatim>\<open>main\<close> reads; the device
  is \<open>None\<close> when \<^verbatim>\<open>--device\<close> is not given.
\<close>

record args =
  image_file_or_dir :: string
  save_csv :: bool
  csv_file :: "string option"
  store_full_path :: bool
  batch_size :: int
  model :: string
  clip_model :: string
  no_progress :: bool
  precision :: string
  device :: "string option"

text \<open>
  \<^verbatim>\<open>torch.device(s)\<close>, for the three strings \<^verbatim>\<open>get_device\<close> passes: the empty string is
  rejected.
\<close>

definition torch_device :: "string \<Rightarrow> error + string" where
  "torch_device s =
     (if s = [] then Inl (RuntimeError ''Device string must not be empty'') else Inr s)"

text \<open>
  \<^verbatim>\<open>get_device\<close> (lines 209-213); \<open>cuda\<close> is \<^verbatim>\<open>torch.cuda.is_available()\<close>. The
  comparison is with \<^verbatim>\<open>str()\<close>, the empty string.
\<close>

definition get_device :: "bool \<Rightarrow> args \<Rightarrow> error + string" where
  "get_device cuda a =
     (if device a = Some [] then torch_device []
      else torch_device (if cuda then ''cuda'' else ''cpu''))"

subsection \<open>File discovery\<close>

text \<open>
  The directory tree below the path given: \<open>File\<close> is any entry for which
  \<^verbatim>\<open>Path.is_dir()\<close> is false, \<open>Dir\<close> a directory with its entries in the order
  \<^verbatim>\<open>os.listdir\<close> lists them. The tree is finite: symbolic links that close a cycle are
  outside the model.
\<close>

datatype node = File | Dir "(string \<times> node) list"

fun is_dir :: "node \<Rightarrow> bool" where
  "is_dir (Dir es) = True"
| "is_dir File = False"

definition image_suffixes :: "string list" where
  "image_suffixes = [''.jpg'', ''.jpeg'', ''.png'', ''.bmp'', ''.webp'', ''.avif'']"

text \<open>The test of lines 302-304 and 307-309.\<close>

definition is_image :: "string \<Rightarrow> bool" where
  "is_image p = endswith (str_lower p) image_suffixes"

text \<open>
  \<^verbatim>\<open>get_files\<close> (lines 290-312). \<open>path_str p\<close> is \<^verbatim>\<open>str(Path(p))\<close>, which
  \<^verbatim>\<open>os.path.join\<close> reads from the \<^verbatim>\<open>Path\<close> object; \<open>arg\<close> is the global
  \<^verbatim>\<open>args.image_file_or_dir\<close>, which the branch for a path that is no directory tests and
  returns in place of its parameter.
\<close>

fun get_files :: "(string \<Rightarrow> string) \<Rightarrow> string \<Rightarrow> string \<Rightarrow> node \<Rightarrow> string list" where
  "get_files path_str arg file_or_dir (Dir file_list) =
     concat (map (\<lambda>e.
        (let full_file = os_path_join (path_str file_or_dir) (fst e)
         in if is_dir (snd e) then get_files path_str arg full_file (snd e)
            else if is_image full_file then [full_file] else []))
      file_list)"
| "get_files path_str arg file_or_dir File = (if is_image arg then [arg] else [])"

text \<open>
  Every entry below a node that is no directory, under the path \<^verbatim>\<open>get_files\<close> builds for
  it, in listing order: what the specification calls the files of the directory and,
  recursively, of every subdirectory.
\<close>

fun tree_files :: "(string \<Rightarrow> string) \<Rightarrow> string \<Rightarrow> node \<Rightarrow> string list" where
  "tree_files path_str p (Dir es) =
     concat (map (\<lambda>e. tree_files path_str (os_path_join (path_str p) (fst e)) (snd e)) es)"
| "tree_files path_str p File = [p]"

subsection \<open>Batch scorer\<close>

record score_record =
  "file" :: string
  score :: real

text \<open>\<^verbatim>\<open>range(0, stop, step)\<close>.\<close>

definition py_range :: "nat \<Rightarrow> int \<Rightarrow> error + nat list" where
  "py_range stop step =
     (if step = 0 then Inl (ValueError ''range() arg 3 must not be zero'')
      else if step < 0 then Inr []
      else Inr (map (\<lambda>k. k * nat step) [0 ..< (stop + nat step - 1) div nat step]))"

text \<open>The generator \<^verbatim>\<open>chunks\<close> (lines 241-244), as the list of what it yields.\<close>

definition chunks :: "'a list \<Rightarrow> int \<Rightarrow> error + 'a list list" where
  "chunks lst n =
     (case py_range (length lst) n of
        Inl e \<Rightarrow> Inl e
      | Inr starts \<Rightarrow> Inr (map (\<lambda>i. take (nat n) (drop i lst)) starts))"

text \<open>
  The inner loop of lines 248-250. \<open>file_var\<close> is the variable \<^verbatim>\<open>file\<close> of
  \<^verbatim>\<open>main\<close>, \<open>None\<close> while unbound; \<open>open_image f\<close> is the decoded and preprocessed image,
  \<open>None\<close> when decoding raises.
\<close>

fun decode_loop ::
  "(string \<Rightarrow> 'img option) \<Rightarrow> string list \<Rightarrow> string option \<Rightarrow> 'img list
     \<Rightarrow> error + (string option \<times> 'img list)" where
  "decode_loop open_image [] file_var images = Inr (file_var, images)"
| "decode_loop open_image (f # fs) file_var images =
     (case open_image f of
        None \<Rightarrow> Inl (ImageError f)
      | Some img \<Rightarrow> decode_loop open_image fs (Some f) (images @ [img]))"

text \<open>Lines 256-257: one record for each score, each reading the variable \<^verbatim>\<open>file\<close>.\<close>

fun append_scores ::
  "string option \<Rightarrow> real list \<Rightarrow> score_record list \<Rightarrow> error + score_record list" where
  "append_scores file_var [] scores = Inr scores"
| "append_scores file_var (s # ss) scores =
     (case file_var of
        None \<Rightarrow> Inl (UnboundLocalError ''file'')
      | Some f \<Rightarrow> append_scores file_var ss (scores @ [\<lparr>file = f, score = s\<rparr>]))"

text \<open>
  The body of the loop over the chunks (lines 247-264). \<open>progress_bar\<close> says whether the
  variable of that name is bound; \<open>scorer\<close> is \<^verbatim>\<open>get_aesthetic_predictor_scores\<close> with the
  models of the run.
\<close>

definition score_chunk ::
  "(string \<Rightarrow> 'img option) \<Rightarrow> ('img list \<Rightarrow> real list) \<Rightarrow> bool \<Rightarrow> string list
     \<Rightarrow> string option \<times> score_record list \<Rightarrow> error + (string option \<times> score_record list)" where
  "score_chunk open_image scorer progress_bar files_s st =
     (case decode_loop open_image files_s (fst st) [] of
        Inl e \<Rightarrow> Inl e
      | Inr (file_var, images) \<Rightarrow>
          (case append_scores file_var (scorer images) (snd st) of
             Inl e \<Rightarrow> Inl e
           | Inr scores \<Rightarrow>
               if progress_bar then Inr (file_var, scores)
               else Inl (UnboundLocalError ''progress_bar'')))"

fun score_loop ::
  "(string \<Rightarrow> 'img option) \<Rightarrow> ('img list \<Rightarrow> real list) \<Rightarrow> bool \<Rightarrow> string list list
     \<Rightarrow> string option \<times> score_record list \<Rightarrow> error + (string option \<times> score_record list)" where
  "score_loop open_image scorer progress_bar [] st = Inr st"
| "score_loop open_image scorer progress_bar (files_s # rest) st =
     (case score_chunk open_image scorer progress_bar files_s st of
        Inl e \<Rightarrow> Inl e
      | Inr st' \<Rightarrow> score_loop open_image scorer progress_bar rest st')"

text \<open>
  Lines 231-264 of \<^verbatim>\<open>main\<close>: the progress bar is created, and so bound, only when
  \<^verbatim>\<open>no_progress\<close> is not set, and creating it divides by the batch size.
\<close>

definition score_all ::
  "(string \<Rightarrow> 'img option) \<Rightarrow> ('img list \<Rightarrow> real list) \<Rightarrow> args \<Rightarrow> string list
     \<Rightarrow> error + score_record list" where
  "score_all open_image scorer a fs =
     (if \<not> no_progress a \<and> batch_size a = 0 then Inl ZeroDivisionError
      else
        (case chunks fs (batch_size a) of
           Inl e \<Rightarrow> Inl e
         | Inr cs \<Rightarrow>
             (case score_loop open_image scorer (\<not> no_progress a) cs (None, []) of
                Inl e \<Rightarrow> Inl e
              | Inr st \<Rightarrow> Inr (snd st))))"

subsection \<open>Aggregation and report\<close>

text \<open>
  \<^verbatim>\<open>sorted(scores, key=..., reverse=True)\<close>: a stable sort by ascending key of the
  reversed list, reversed again, which is how \<^verbatim>\<open>list.sort\<close> keeps equal keys in their
  original order under \<^verbatim>\<open>reverse=True\<close>.
\<close>

definition sorted_reverse :: "score_record list \<Rightarrow> score_record list" where
  "sorted_reverse scores = rev (sort_key score (rev scores))"



section \<open>Properties\<close>

subsection \<open>Predictor loader\<close>

text \<open>
  Claim C8. For every encoder variant name the loader takes the input dimension of the network
  from a substring test on the name: 768 when the name contains \<^verbatim>\<open>ViT-L\<close>, otherwise 512
  when it contains \<^verbatim>\<open>ViT-B\<close>, and 768 for any other name; a predictor that
  \<^verbatim>\<open>load_model\<close> returns has that input size.
\<close>

theorem load_model_input_size:
  "predictor_input_size variant =
     (if (\<exists>ps ss. variant = ps @ ''ViT-L'' @ ss) then 768
      else if (\<exists>ps ss. variant = ps @ ''ViT-B'' @ ss) then 512
      else 768)
   \<and> (\<forall>p w'. load_model cache_dir http_get torch_load fits name variant w = (Inr p, w')
         \<longrightarrow> input_size p = predictor_input_size variant)"
proof -
  have size: "predictor_input_size variant =
     (if (\<exists>ps ss. variant = ps @ ''ViT-L'' @ ss) then 768
      else if (\<exists>ps ss. variant = ps @ ''ViT-B'' @ ss) then 512
      else 768)"
    unfolding predictor_input_size_def sublist_def by simp
  have loaded: "input_size p = predictor_input_size variant"
    if "load_model cache_dir http_get torch_load fits name variant w = (Inr p, w')" for p w'
    using that unfolding load_model_def
    by (auto simp: Let_def split: prod.splits sum.splits option.splits content.splits if_splits)
  from size loaded show ?thesis by blast
qed

theorem load_model_input_size_witness:
  "fst (load_model ''/cache'' (\<lambda>u. None) Some (\<lambda>n sd. True) ''chadscorer'' ''ViT-B/32''
          \<lparr>dirs = {}, files = [''/cache/chadscorer.pth'' \<mapsto> Bytes ''weights''],
           requests = [], stdout = []\<rparr>)
     = Inr \<lparr>input_size = 512, state_dict = ''weights''\<rparr>
   \<and> predictor_input_size ''ViT-B/32'' = 512
   \<and> predictor_input_size ''ViT-L/14@336px'' = 768
   \<and> predictor_input_size ''RN50'' = 768"
proof -
  let ?w = "\<lparr>dirs = {}, files = [''/cache/chadscorer.pth'' \<mapsto> Bytes ''weights''],
             requests = [], stdout = []\<rparr>"
  let ?run = "load_model ''/cache'' (\<lambda>u. None) Some (\<lambda>n sd. True) ''chadscorer'' ''ViT-B/32'' ?w"
  let ?p = "\<lparr>input_size = 512, state_dict = ''weights''\<rparr>"
  have run: "fst ?run = Inr ?p"
    by code_simp
  then have "?run = (Inr ?p, snd ?run)"
    by (metis prod.collapse)
  with load_model_input_size [of "''ViT-B/32''" "''/cache''" "\<lambda>u. None" Some "\<lambda>n sd. True"
      "''chadscorer''" ?w]
  have "input_size ?p = predictor_input_size ''ViT-B/32''"
    by blast
  then have b: "predictor_input_size ''ViT-B/32'' = 512"
    by simp
  have l: "predictor_input_size ''ViT-L/14@336px'' = 768"
    by code_simp
  have r: "predictor_input_size ''RN50'' = 768"
    by code_simp
  from run b l r show ?thesis
    by blast
qed

subsection \<open>Device resolution\<close>

text \<open>
  Claim C9. For every configuration whose device is not the empty string (unset, or any
  explicit value such as \<^verbatim>\<open>cpu\<close> or \<^verbatim>\<open>cuda:0\<close>), \<^verbatim>\<open>get_device\<close> ignores the
  configured value and returns the detected device, \<^verbatim>\<open>cuda\<close> when it is available and
  \<^verbatim>\<open>cpu\<close> otherwise; changing the device to any other value that is not the empty string
  does not change the result.
\<close>

theorem get_device_ignores_configured:
  assumes "device a \<noteq> Some []" and "d \<noteq> Some []"
  shows "get_device cuda a = Inr (if cuda then ''cuda'' else ''cpu'')
         \<and> get_device cuda (a\<lparr>device := d\<rparr>) = get_device cuda a"
  using assms by (simp add: get_device_def torch_device_def)

theorem get_device_ignores_configured_witness:
  "device \<lparr>image_file_or_dir = ''imgs'', save_csv = False, csv_file = None,
            store_full_path = False, batch_size = 5, model = ''chadscorer'',
            clip_model = ''ViT-L/14'', no_progress = False, precision = ''float'',
            device = Some ''cpu''\<rparr> \<noteq> Some []
   \<and> get_device True \<lparr>image_file_or_dir = ''imgs'', save_csv = False, csv_file = None,
            store_full_path = False, batch_size = 5, model = ''chadscorer'',
            clip_model = ''ViT-L/14'', no_progress = False, precision = ''float'',
            device = Some ''cpu''\<rparr> = Inr ''cuda''
   \<and> get_device True \<lparr>image_file_or_dir = ''imgs'', save_csv = False, csv_file = None,
            store_full_path = False, batch_size = 5, model = ''chadscorer'',
            clip_model = ''ViT-L/14'', no_progress = False, precision = ''float'',
            device = None\<rparr> = Inr ''cuda''"
proof -
  let ?a = "\<lparr>image_file_or_dir = ''imgs'', save_csv = False, csv_file = None,
            store_full_path = False, batch_size = 5, model = ''chadscorer'',
            clip_model = ''ViT-L/14'', no_progress = False, precision = ''float'',
            device = Some ''cpu''\<rparr>"
  have h: "device ?a \<noteq> Some []"
    by simp
  have n: "(None :: string option) \<noteq> Some []"
    by simp
  from get_device_ignores_configured [OF h n, of True] h show ?thesis
    by simp
qed

subsection \<open>Model acquisition\<close>





subsection \<open>File discovery\<close>

lemma get_files_dir:
  "is_dir n \<Longrightarrow> get_files path_str arg p n = filter is_image (tree_files path_str p n)"
proof (induction path_str arg p n rule: get_files.induct)
  case (1 path_str arg file_or_dir file_list)
  have "(let full_file = os_path_join (path_str file_or_dir) (fst e)
         in if is_dir (snd e) then get_files path_str arg full_file (snd e)
            else if is_image full_file then [full_file] else [])
        = filter is_image
            (tree_files path_str (os_path_join (path_str file_or_dir) (fst e)) (snd e))"
    if "e \<in> set file_list" for e
  proof (cases "snd e")
    case File
    then show ?thesis by (simp add: Let_def)
  next
    case (Dir es)
    with that "1.IH" [of e "os_path_join (path_str file_or_dir) (fst e)"] show ?thesis
      by (simp add: Let_def)
  qed
  then show ?case
    by (simp add: filter_concat comp_def cong: map_cong)
next
  case (2 path_str arg file_or_dir)
  then show ?case by simp
qed

lemma is_image_iff:
  "is_image p \<longleftrightarrow>
     (\<exists>stem ext. ext \<in> {''jpg'', ''jpeg'', ''png'', ''bmp'', ''webp'', ''avif''}
        \<and> str_lower p = stem @ ''.'' @ ext)"
  unfolding is_image_def endswith_def image_suffixes_def suffix_def
  by (auto simp: list_ex_iff)

text \<open>
  Claim C3. Called as \<^verbatim>\<open>main\<close> calls it, with the configured path, \<^verbatim>\<open>get_files\<close>
  returns a path that is no directory as a singleton if and only if the path, in lower
  case, ends with a dot and one of \<^verbatim>\<open>jpg, jpeg, png, bmp, webp, avif\<close>, and nothing
  otherwise; for a directory it returns exactly the entries of the directory and of all
  its subdirectories that pass the same test, in listing order, and no other entry.
\<close>

theorem get_files_discovers:
  "get_files path_str p p File = (if is_image p then [p] else [])
   \<and> get_files path_str arg p (Dir es) = filter is_image (tree_files path_str p (Dir es))
   \<and> (is_image q \<longleftrightarrow>
        (\<exists>stem ext. ext \<in> {''jpg'', ''jpeg'', ''png'', ''bmp'', ''webp'', ''avif''}
           \<and> str_lower q = stem @ ''.'' @ ext))"
  using get_files_dir [of "Dir es" path_str arg p] is_image_iff [of q] by simp

theorem get_files_discovers_witness:
  "get_files (\<lambda>p. p) ''imgs'' ''imgs''
     (Dir [(''a.JPG'', File), (''notes.txt'', File),
           (''sub'', Dir [(''b.webp'', File), (''c.gif'', File),
                          (''deep'', Dir [(''d.Avif'', File)])]),
           (''e.png'', File)])
     = [''imgs/a.JPG'', ''imgs/sub/b.webp'', ''imgs/sub/deep/d.Avif'', ''imgs/e.png'']
   \<and> get_files (\<lambda>p. p) ''x.PNG'' ''x.PNG'' File = [''x.PNG'']
   \<and> get_files (\<lambda>p. p) ''notes.txt'' ''notes.txt'' File = []"
proof -
  let ?es = "[(''a.JPG'', File), (''notes.txt'', File),
              (''sub'', Dir [(''b.webp'', File), (''c.gif'', File),
                             (''deep'', Dir [(''d.Avif'', File)])]),
              (''e.png'', File)]"
  have all: "tree_files (\<lambda>p. p) ''imgs'' (Dir ?es)
     = [''imgs/a.JPG'', ''imgs/notes.txt'', ''imgs/sub/b.webp'', ''imgs/sub/c.gif'',
        ''imgs/sub/deep/d.Avif'', ''imgs/e.png'']"
    by code_simp
  have kept: "filter is_image
       [''imgs/a.JPG'', ''imgs/notes.txt'', ''imgs/sub/b.webp'', ''imgs/sub/c.gif'',
        ''imgs/sub/deep/d.Avif'', ''imgs/e.png'']
     = [''imgs/a.JPG'', ''imgs/sub/b.webp'', ''imgs/sub/deep/d.Avif'', ''imgs/e.png'']"
    by code_simp
  have png: "is_image ''x.PNG''"
    by code_simp
  have other: "\<not> is_image ''notes.txt''"
    by code_simp
  from get_files_discovers [of "\<lambda>p. p" "''imgs''" "''imgs''" ?es]
  have d: "get_files (\<lambda>p. p) ''imgs'' ''imgs'' (Dir ?es)
     = [''imgs/a.JPG'', ''imgs/sub/b.webp'', ''imgs/sub/deep/d.Avif'', ''imgs/e.png'']"
    by (simp only: all kept)
  from png other have f: "get_files (\<lambda>p. p) ''x.PNG'' ''x.PNG'' File = [''x.PNG'']
      \<and> get_files (\<lambda>p. p) ''notes.txt'' ''notes.txt'' File = []"
    by simp
  from d f show ?thesis
    by blast
qed

subsection \<open>Normalisation\<close>

lemma divisors_nth:
  "i < length a \<Longrightarrow> divisors a ! i = (if l2_norm (a ! i) = 0 then 1 else l2_norm (a ! i))"
  by (simp add: divisors_def)

lemma normalized_nth:
  "i < length a \<Longrightarrow> normalized a ! i = map (\<lambda>x. x / divisors a ! i) (a ! i)"
  by (simp add: normalized_def divisors_def)

text \<open>
  Claim C4. For every row of the batch whose L2 norm is zero, the divisor of the row is 1
  and \<^verbatim>\<open>normalized\<close> returns the row unchanged; the batch keeps its length, and no divisor
  is zero, so no division of \<^verbatim>\<open>normalized\<close> is a division by zero (the source of NaN and
  Inf for a zero-norm input).
\<close>

theorem normalized_zero_norm:
  assumes "i < length a" and "l2_norm (a ! i) = 0"
  shows "divisors a ! i = 1
         \<and> normalized a ! i = a ! i
         \<and> length (normalized a) = length a
         \<and> 0 \<notin> set (divisors a)"
proof -
  from assms have d: "divisors a ! i = 1"
    by (simp add: divisors_nth)
  with assms have n: "normalized a ! i = a ! i"
    by (simp add: normalized_nth)
  have l: "length (normalized a) = length a"
    by (simp add: normalized_def divisors_def)
  have z: "0 \<notin> set (divisors a)"
    by (auto simp: divisors_def)
  from d n l z show ?thesis by simp
qed

theorem normalized_zero_norm_witness:
  "(0::nat) < length [[0, 0], [3, 4 :: real]]
   \<and> l2_norm ([[0, 0], [3, 4]] ! 0) = 0
   \<and> normalized [[0, 0], [3, 4]] ! 0 = [0, 0]
   \<and> divisors [[0, 0], [3, 4]] ! 0 = 1"
proof -
  have i: "(0::nat) < length [[0, 0], [3, 4 :: real]]"
    by simp
  have z: "l2_norm ([[0, 0], [3, 4]] ! 0) = 0"
    by (simp add: l2_norm_def)
  from normalized_zero_norm [OF i z] i z show ?thesis
    by simp
qed

subsection \<open>Sorting\<close>

lemma sorted_reverse_desc:
  "sorted_wrt (\<lambda>x y. score x \<ge> score y) (sorted_reverse xs)"
proof -
  have "sorted (map score (sort_key score (rev xs)))"
    by (rule sorted_sort_key)
  then have "sorted_wrt (\<lambda>x y. score x \<le> score y) (sort_key score (rev xs))"
    by (simp add: sorted_map)
  then show ?thesis
    by (simp add: sorted_reverse_def sorted_wrt_rev)
qed

lemma sorted_reverse_mset: "mset (sorted_reverse xs) = mset xs"
  by (simp add: sorted_reverse_def)

lemma sorted_reverse_stable:
  "filter (\<lambda>r. score r = k) (sorted_reverse xs) = filter (\<lambda>r. score r = k) xs"
  by (simp add: sorted_reverse_def rev_filter [symmetric] sort_key_stable)

lemma sorted_reverse_id:
  assumes "sorted_wrt (\<lambda>x y. score x \<ge> score y) xs"
  shows "sorted_reverse xs = xs"
proof -
  from assms have "sorted_wrt (\<lambda>x y. score x \<le> score y) (rev xs)"
    by (simp add: sorted_wrt_rev)
  then have "sorted (map score (rev xs))"
    by (simp add: sorted_map)
  then have "sort_key score (rev xs) = rev xs"
    by (rule sort_key_id_if_sorted)
  then show ?thesis
    by (simp add: sorted_reverse_def)
qed

text \<open>
  Claim C5. The sort of the aggregator returns the records in descending order of score, is
  a rearrangement of its input, and is stable: the records of any one score keep their
  original relative order. Hence a sequence that is already descending is returned as it
  is, and sorting twice is sorting once.
\<close>

theorem sorted_reverse_descending_stable:
  "sorted_wrt (\<lambda>x y. score x \<ge> score y) (sorted_reverse xs)
   \<and> mset (sorted_reverse xs) = mset xs
   \<and> filter (\<lambda>r. score r = k) (sorted_reverse xs) = filter (\<lambda>r. score r = k) xs
   \<and> (sorted_wrt (\<lambda>x y. score x \<ge> score y) xs \<longrightarrow> sorted_reverse xs = xs)
   \<and> sorted_reverse (sorted_reverse xs) = sorted_reverse xs"
  using sorted_reverse_desc [of xs] sorted_reverse_mset [of xs] sorted_reverse_stable [of k xs]
    sorted_reverse_id [of xs] sorted_reverse_id [of "sorted_reverse xs"]
  by blast

theorem sorted_reverse_descending_stable_witness:
  "sorted_wrt (\<lambda>x y. score x \<ge> score y)
     [\<lparr>file = ''b'', score = 3\<rparr>, \<lparr>file = ''d'', score = 3\<rparr>,
      \<lparr>file = ''a'', score = 1\<rparr>, \<lparr>file = ''c'', score = 1\<rparr>]
   \<and> sorted_reverse
       [\<lparr>file = ''b'', score = 3\<rparr>, \<lparr>file = ''d'', score = 3\<rparr>,
        \<lparr>file = ''a'', score = 1\<rparr>, \<lparr>file = ''c'', score = 1\<rparr>]
     = [\<lparr>file = ''b'', score = 3\<rparr>, \<lparr>file = ''d'', score = 3\<rparr>,
        \<lparr>file = ''a'', score = 1\<rparr>, \<lparr>file = ''c'', score = 1\<rparr>]
   \<and> sorted_reverse
       [\<lparr>file = ''a'', score = 1\<rparr>, \<lparr>file = ''b'', score = 3\<rparr>,
        \<lparr>file = ''c'', score = 1\<rparr>, \<lparr>file = ''d'', score = 3\<rparr>]
     = [\<lparr>file = ''b'', score = 3\<rparr>, \<lparr>file = ''d'', score = 3\<rparr>,
        \<lparr>file = ''a'', score = 1\<rparr>, \<lparr>file = ''c'', score = 1\<rparr>]"
proof -
  let ?desc = "[\<lparr>file = ''b'', score = 3\<rparr>, \<lparr>file = ''d'', score = 3\<rparr>,
                \<lparr>file = ''a'', score = 1\<rparr>, \<lparr>file = ''c'', score = 1\<rparr>]"
  have h: "sorted_wrt (\<lambda>x y. score x \<ge> score y) ?desc"
    by simp
  with sorted_reverse_descending_stable [of ?desc] have same: "sorted_reverse ?desc = ?desc"
    by blast
  have mixed: "sorted_reverse
       [\<lparr>file = ''a'', score = 1\<rparr>, \<lparr>file = ''b'', score = 3\<rparr>,
        \<lparr>file = ''c'', score = 1\<rparr>, \<lparr>file = ''d'', score = 3\<rparr>] = ?desc"
    by code_simp
  from h same mixed show ?thesis
    by blast
qed

subsection \<open>Batch scorer\<close>

lemma decode_loop_Inr:
  "decode_loop oi fs fv imgs = Inr (fv', images) \<Longrightarrow>
     fv' = (if fs = [] then fv else Some (last fs))
     \<and> images = imgs @ map (\<lambda>f. the (oi f)) fs"
proof (induction fs arbitrary: fv imgs)
  case Nil
  then show ?case by simp
next
  case (Cons f fs)
  show ?case
  proof (cases "oi f")
    case None
    with Cons.prems show ?thesis by simp
  next
    case (Some img)
    with Cons.prems have "decode_loop oi fs (Some f) (imgs @ [img]) = Inr (fv', images)"
      by simp
    from Cons.IH [OF this] Some show ?thesis
      by simp
  qed
qed


lemma append_scores_Some:
  "append_scores (Some f) ss scores = Inr (scores @ map (\<lambda>s. \<lparr>file = f, score = s\<rparr>) ss)"
  by (induction ss arbitrary: scores) simp_all

lemma score_chunk_Inr:
  assumes "files_s \<noteq> []"
    and "score_chunk oi sc pb files_s st = Inr st'"
  shows "st' = (Some (last files_s),
                snd st @ map (\<lambda>s. \<lparr>file = last files_s, score = s\<rparr>)
                           (sc (map (\<lambda>f. the (oi f)) files_s)))"
proof (cases "decode_loop oi files_s (fst st) []")
  case (Inl e)
  with assms show ?thesis by (simp add: score_chunk_def)
next
  case (Inr r)
  obtain fv images where r: "r = (fv, images)" by (cases r)
  from Inr r assms(1) have fv: "fv = Some (last files_s)"
    and im: "images = map (\<lambda>f. the (oi f)) files_s"
    using decode_loop_Inr [of oi files_s "fst st" "[]" fv images] by simp_all
  from assms(2) Inr r fv im show ?thesis
    by (simp add: score_chunk_def append_scores_Some split: if_splits)
qed

lemma score_loop_Inr:
  "\<forall>c\<in>set cs. c \<noteq> [] \<Longrightarrow> score_loop oi sc pb cs st = Inr st' \<Longrightarrow>
     snd st' = snd st @ concat (map (\<lambda>c. map (\<lambda>s. \<lparr>file = last c, score = s\<rparr>)
                                          (sc (map (\<lambda>f. the (oi f)) c))) cs)"
proof (induction cs arbitrary: st)
  case Nil
  then show ?case by simp
next
  case (Cons c cs)
  from Cons.prems(2) obtain st1 where c: "score_chunk oi sc pb c st = Inr st1"
    and rest: "score_loop oi sc pb cs st1 = Inr st'"
    by (auto split: sum.splits)
  from Cons.prems(1) have ne: "c \<noteq> []" by simp
  from score_chunk_Inr [OF ne c] have st1: "snd st1 = snd st @ map (\<lambda>s. \<lparr>file = last c, score = s\<rparr>)
                           (sc (map (\<lambda>f. the (oi f)) c))"
    by simp
  from Cons.IH [OF _ rest] Cons.prems(1) st1 show ?case
    by simp
qed

lemma range_bound:
  fixes k n L :: nat
  assumes "0 < n" and "k < (L + n - 1) div n"
  shows "k * n < L"
proof -
  from assms(2) have "Suc k \<le> (L + n - 1) div n" by simp
  with assms(1) have "Suc k * n \<le> L + n - 1"
    by (simp add: less_eq_div_iff_mult_less_eq)
  with assms(1) show ?thesis by simp
qed

lemma chunks_pos:
  "0 < n \<Longrightarrow> chunks fs n
     = Inr (map (\<lambda>k. take (nat n) (drop (k * nat n) fs))
              [0 ..< (length fs + nat n - 1) div nat n])"
  by (simp add: chunks_def py_range_def comp_def)

lemma chunks_nonempty:
  assumes "chunks fs n = Inr cs" and "c \<in> set cs"
  shows "c \<noteq> []"
proof (cases "0 < n")
  case True
  with assms obtain k where k: "k < (length fs + nat n - 1) div nat n"
    and c: "c = take (nat n) (drop (k * nat n) fs)"
    by (auto simp: chunks_pos)
  from True k have "k * nat n < length fs"
    by (intro range_bound) simp_all
  with True c show ?thesis by simp
next
  case False
  with assms show ?thesis
    by (auto simp: chunks_def py_range_def split: if_splits)
qed

lemma concat_take_drop:
  "concat (map (\<lambda>k. take n (drop (k * n) fs)) [0 ..< m]) = take (m * n) fs"
proof (induction m)
  case 0
  then show ?case by simp
next
  case (Suc m)
  have "take (m * n) fs @ take n (drop (m * n) fs) = take (m * n + n) fs"
    by (simp add: take_add)
  with Suc show ?case by (simp add: add.commute)
qed

lemma chunks_concat:
  assumes "0 < n" and "chunks fs n = Inr cs"
  shows "concat cs = fs" and "\<forall>c\<in>set cs. length c \<le> nat n"
proof -
  let ?n = "nat n"
  let ?m = "(length fs + ?n - 1) div ?n"
  from assms have cs: "cs = map (\<lambda>k. take ?n (drop (k * ?n) fs)) [0 ..< ?m]"
    by (simp add: chunks_pos)
  have "length fs \<le> ?m * ?n"
  proof -
    from assms(1) have pos: "0 < ?n" by simp
    have "length fs + ?n - 1 < (?m + 1) * ?n"
      using pos by (metis Suc_eq_plus1 dividend_less_div_times mult.commute mult_Suc)
    then have "length fs + ?n - 1 < ?m * ?n + ?n"
      by (simp add: algebra_simps)
    with pos show ?thesis by linarith
  qed
  with cs show "concat cs = fs"
    by (simp add: concat_take_drop)
  from cs show "\<forall>c\<in>set cs. length c \<le> nat n"
    by auto
qed

text \<open>
  Claim C2. Whenever the batch scorer returns, its records are, chunk after chunk of the
  file list, one record for each score of the chunk, and every record of a chunk carries
  the last file name of that chunk (what the loop variable \<^verbatim>\<open>file\<close> holds after the
  decode loop), whichever file the score was computed from. For a positive batch size the
  chunks are consecutive pieces of the file list.
\<close>

theorem score_all_last_file:
  assumes "score_all oi sc a fs = Inr recs"
  shows "\<exists>cs. chunks fs (batch_size a) = Inr cs
           \<and> (0 < batch_size a \<longrightarrow> concat cs = fs)
           \<and> recs = concat (map (\<lambda>c. map (\<lambda>s. \<lparr>file = last c, score = s\<rparr>)
                                       (sc (map (\<lambda>f. the (oi f)) c))) cs)"
proof -
  from assms obtain cs st where cs: "chunks fs (batch_size a) = Inr cs"
    and loop: "score_loop oi sc (\<not> no_progress a) cs (None, []) = Inr st"
    and recs: "recs = snd st"
    by (auto simp: score_all_def split: if_splits sum.splits)
  from cs have "\<forall>c\<in>set cs. c \<noteq> []"
    using chunks_nonempty by blast
  from score_loop_Inr [OF this loop] cs recs chunks_concat(1) [of "batch_size a" fs cs]
  show ?thesis
    by simp
qed

theorem score_all_last_file_witness:
  "score_all Some (map (\<lambda>img. real (length img)))
       \<lparr>image_file_or_dir = ''imgs'', save_csv = False, csv_file = None,
        store_full_path = False, batch_size = 2, model = ''chadscorer'',
        clip_model = ''ViT-L/14'', no_progress = False, precision = ''float'',
        device = None\<rparr>
       [''a'', ''bb'', ''ccc'']
     = Inr [\<lparr>file = ''bb'', score = 1\<rparr>, \<lparr>file = ''bb'', score = 2\<rparr>,
            \<lparr>file = ''ccc'', score = 3\<rparr>]
   \<and> chunks [''a'', ''bb'', ''ccc''] 2 = Inr [[''a'', ''bb''], [''ccc'']]"
proof -
  let ?a = "\<lparr>image_file_or_dir = ''imgs'', save_csv = False, csv_file = None,
        store_full_path = False, batch_size = 2, model = ''chadscorer'',
        clip_model = ''ViT-L/14'', no_progress = False, precision = ''float'',
        device = None\<rparr>"
  let ?recs = "[\<lparr>file = ''bb'', score = 1\<rparr>, \<lparr>file = ''bb'', score = 2\<rparr>,
                \<lparr>file = ''ccc'', score = 3\<rparr>]"
  have run: "score_all Some (map (\<lambda>img. real (length img))) ?a [''a'', ''bb'', ''ccc'']
      = Inr ?recs"
    by code_simp
  from score_all_last_file [OF run] obtain cs
    where cs: "chunks [''a'', ''bb'', ''ccc''] (batch_size ?a) = Inr cs"
      and "0 < batch_size ?a \<longrightarrow> concat cs = [''a'', ''bb'', ''ccc'']"
    by blast
  have "chunks [''a'', ''bb'', ''ccc''] (batch_size ?a) = Inr [[''a'', ''bb''], [''ccc'']]"
    by code_simp
  with run show ?thesis
    by simp
qed




subsection \<open>Aggregation and report\<close>












end
